theory Spec2Isabelle
  imports Main "HOL-Library.Sublist" "HOL-Library.AList"
begin

section \<open>JavaScript values and requests\<close>

text \<open>
  The values the key generators and the response bodies handle. Numbers are left out:
  no identity field, message or body of the sources is a number.
  \<open>JObjectId h\<close> is a database identifier object whose \<open>toString()\<close> is the text \<open>h\<close>.
  \<open>JObj fs\<close> is a plain object (its prototype is \<open>Object.prototype\<close>) with the own
  properties \<open>fs\<close>; no value of the type is a function.
\<close>

datatype jsval =
    JUndefined
  | JNull
  | JBool bool
  | JStr string
  | JObjectId string
  | JObj "(string \<times> jsval) list"

text \<open>Truthiness, as \<open>||\<close> and \<open>? :\<close> test it: the empty string is falsy, every object is truthy.\<close>

fun truthy :: "jsval \<Rightarrow> bool" where
  "truthy JUndefined = False"
| "truthy JNull = False"
| "truthy (JBool b) = b"
| "truthy (JStr s) = (s \<noteq> [])"
| "truthy (JObjectId h) = True"
| "truthy (JObj fs) = True"

text \<open>\<open>a || b\<close>: the first operand when it is truthy, else the second.\<close>

definition js_or :: "jsval \<Rightarrow> jsval \<Rightarrow> jsval" where
  "js_or a b = (if truthy a then a else b)"

text \<open>
  An error value as the error handler of \<open>server.js\<close> reads it: \<open>err.status\<close>,
  \<open>err.message\<close>, and what the error object serialises to in a JSON body.
\<close>

record js_error =
  err_name :: string
  err_status :: "nat option"
  err_message :: string
  err_json :: jsval

text \<open>The TypeError of a property read on \<open>undefined\<close> or \<open>null\<close>.\<close>

definition typeError :: "string \<Rightarrow> string \<Rightarrow> js_error" where
  "typeError what prop =
     \<lparr> err_name = ''TypeError'', err_status = None,
       err_message = ''Cannot read properties of '' @ what @ '' (reading '' @ [CHR 0x27] @ prop @ [CHR 0x27] @ '')'',
       err_json = JObj [] \<rparr>"

text \<open>The TypeError of a call of a property that is no function.\<close>

definition notAFunction :: "string \<Rightarrow> js_error" where
  "notAFunction what =
     \<lparr> err_name = ''TypeError'', err_status = None,
       err_message = what @ '' is not a function'',
       err_json = JObj [] \<rparr>"

text \<open>
  The method call \<open>req.user._id.toString()\<close>, the one place the sources call \<open>toString\<close>.
  It throws on \<open>undefined\<close> and \<open>null\<close>, which have no properties, and on an object
  with an own property \<open>toString\<close>: the property shadows the inherited method, and no
  value here is a function. Every other object inherits \<open>Object.prototype.toString\<close>.
\<close>

fun toStringMethod :: "jsval \<Rightarrow> js_error + string" where
  "toStringMethod JUndefined = Inl (typeError ''undefined'' ''toString'')"
| "toStringMethod JNull = Inl (typeError ''null'' ''toString'')"
| "toStringMethod (JBool b) = Inr (if b then ''true'' else ''false'')"
| "toStringMethod (JStr s) = Inr s"
| "toStringMethod (JObjectId h) = Inr h"
| "toStringMethod (JObj fs) =
     (case map_of fs ''toString'' of
        None \<Rightarrow> Inr ''[object Object]''
      | Some v \<Rightarrow> Inl (notAFunction ''req.user._id.toString''))"

text \<open>
  The conversion string concatenation applies (\<open>prefix + key\<close>): \<open>undefined\<close>
  becomes the text \<open>undefined\<close>, and an object is taken to convert as
  \<open>Object.prototype\<close> converts it.
\<close>

fun jsToString :: "jsval \<Rightarrow> string" where
  "jsToString JUndefined = ''undefined''"
| "jsToString JNull = ''null''"
| "jsToString (JBool b) = (if b then ''true'' else ''false'')"
| "jsToString (JStr s) = s"
| "jsToString (JObjectId h) = h"
| "jsToString (JObj fs) = ''[object Object]''"

text \<open>
  The fields of a request the limiters read: \<open>req.ip\<close>, \<open>req.tenantId\<close>,
  \<open>req.headers\<close> and \<open>req.user\<close> (absent, or a user record with its \<open>_id\<close>).
\<close>

record user =
  user_id :: jsval

record request =
  ip :: jsval
  tenantId :: jsval
  headers :: "(string \<times> string) list"
  user :: "user option"

text \<open>\<open>req.headers[name]\<close>: the header's text, or \<open>undefined\<close>.\<close>

definition header :: "request \<Rightarrow> string \<Rightarrow> jsval" where
  "header req name = (case map_of (headers req) name of None \<Rightarrow> JUndefined | Some v \<Rightarrow> JStr v)"

section \<open>The key generators of the limiters\<close>

text \<open>\<open>req.tenantId || req.headers['x-tenant-id'] || req.ip\<close>\<close>

definition tenantKeyGenerator :: "request \<Rightarrow> js_error + jsval" where
  "tenantKeyGenerator req = Inr (js_or (js_or (tenantId req) (header req ''x-tenant-id'')) (ip req))"

text \<open>\<open>req.user ? req.user._id.toString() : req.ip\<close>\<close>

definition userKeyGenerator :: "request \<Rightarrow> js_error + jsval" where
  "userKeyGenerator req =
     (case user req of
        Some u \<Rightarrow> (case toStringMethod (user_id u) of Inl e \<Rightarrow> Inl e | Inr s \<Rightarrow> Inr (JStr s))
      | None \<Rightarrow> Inr (ip req))"

definition orderKeyGenerator :: "request \<Rightarrow> js_error + jsval" where
  "orderKeyGenerator req =
     (case user req of
        Some u \<Rightarrow> (case toStringMethod (user_id u) of Inl e \<Rightarrow> Inl e | Inr s \<Rightarrow> Inr (JStr s))
      | None \<Rightarrow> Inr (ip req))"

section \<open>The limiter policies\<close>

text \<open>
  The options object each limiter of the sources passes to \<open>rateLimit\<close>. \<open>prefix_opt\<close> is the
  \<open>prefix\<close> option of the \<open>RedisStore\<close> and \<open>max_opt\<close> the \<open>max\<close> option; an option the source
  leaves out is \<open>None\<close>.
\<close>

record policy =
  prefix_opt :: "string option"
  windowMs :: nat
  max_opt :: nat
  message :: string
  keyGenerator :: "(request \<Rightarrow> js_error + jsval) option"
  standardHeaders :: bool
  legacyHeaders :: bool

definition generalLimiter :: policy where
  "generalLimiter =
     \<lparr> prefix_opt = None, windowMs = 15 * 60 * 1000, max_opt = 100,
       message = ''Too many requests from this IP, please try again later.'',
       keyGenerator = None, standardHeaders = True, legacyHeaders = False \<rparr>"

definition authLimiter :: policy where
  "authLimiter =
     \<lparr> prefix_opt = None, windowMs = 15 * 60 * 1000, max_opt = 5,
       message = ''Too many authentication attempts, please try again later.'',
       keyGenerator = None, standardHeaders = True, legacyHeaders = False \<rparr>"

definition tenantLimiter :: "nat \<Rightarrow> nat \<Rightarrow> policy" where
  "tenantLimiter maxRequests windowMinutes =
     \<lparr> prefix_opt = Some ''tenant_limit:'', windowMs = windowMinutes * 60 * 1000,
       max_opt = maxRequests,
       message = ''Tenant rate limit exceeded, please try again later.'',
       keyGenerator = Some tenantKeyGenerator, standardHeaders = True, legacyHeaders = False \<rparr>"

definition userLimiter :: "nat \<Rightarrow> nat \<Rightarrow> policy" where
  "userLimiter maxRequests windowMinutes =
     \<lparr> prefix_opt = Some ''user_limit:'', windowMs = windowMinutes * 60 * 1000,
       max_opt = maxRequests,
       message = ''User rate limit exceeded, please try again later.'',
       keyGenerator = Some userKeyGenerator, standardHeaders = True, legacyHeaders = False \<rparr>"

definition orderLimiter :: policy where
  "orderLimiter =
     \<lparr> prefix_opt = Some ''order_limit:'', windowMs = 60 * 60 * 1000, max_opt = 10,
       message = ''Too many orders placed, please try again later.'',
       keyGenerator = Some orderKeyGenerator, standardHeaders = True, legacyHeaders = False \<rparr>"

text \<open>
  The five limiters the module exports; the tenant and the user limiter are factories
  (their parameters default to 1000 and 50 requests per 15 minutes).
\<close>

datatype limiter = General | Auth | Tenant nat nat | User nat nat | Order

fun policyOf :: "limiter \<Rightarrow> policy" where
  "policyOf General = generalLimiter"
| "policyOf Auth = authLimiter"
| "policyOf (Tenant maxRequests windowMinutes) = tenantLimiter maxRequests windowMinutes"
| "policyOf (User maxRequests windowMinutes) = userLimiter maxRequests windowMinutes"
| "policyOf Order = orderLimiter"

section \<open>The counter store\<close>

text \<open>
  A counter holds its count and the instant its window ends. The store is the list of
  its keys with their counters; \<open>down\<close> is the error every command fails with while
  the store cannot be reached. One window is modelled: a counter does not expire.
\<close>

record counter =
  hits :: nat
  resetTime :: nat

record redis =
  entries :: "(string \<times> counter) list"
  down :: "js_error option"

text \<open>
  Modelled from the spec: the store's \<open>incrementAndGetCount\<close> (section 4.1), which Redis and
  the rate-limit-redis package provide and the sources only configure. It creates the
  counter at 1 with the policy's window if absent, else increments it and keeps its
  window; a store that cannot be reached fails the call.
\<close>

definition incrementAndGetCount :: "string \<Rightarrow> nat \<Rightarrow> nat \<Rightarrow> redis \<Rightarrow> js_error + (counter \<times> redis)" where
  "incrementAndGetCount key now window r =
     (case down r of
        Some e \<Rightarrow> Inl e
      | None \<Rightarrow>
          (let c = (case map_of (entries r) key of
                      None \<Rightarrow> \<lparr> hits = 1, resetTime = now + window \<rparr>
                    | Some c0 \<Rightarrow> c0 \<lparr> hits := hits c0 + 1 \<rparr>)
           in Inr (c, r \<lparr> entries := AList.update key c (entries r) \<rparr>)))"

text \<open>
  The pattern language of the store's key enumeration, for the characters the reset
  script's patterns use: \<open>*\<close> matches any run of characters, \<open>?\<close> one character, every
  other character itself.
\<close>

fun glob :: "string \<Rightarrow> string \<Rightarrow> bool" where
  "glob [] s = (s = [])"
| "glob (p # ps) [] = (p = CHR ''*'' \<and> glob ps [])"
| "glob (p # ps) (c # cs) =
     (if p = CHR ''*'' then glob ps (c # cs) \<or> glob (p # ps) cs
      else (p = CHR ''?'' \<or> p = c) \<and> glob ps cs)"

text \<open>
  Modelled from the spec: \<open>keysMatching\<close> and \<open>delete\<close> of the store (section 4.1), the
  \<open>keys\<close> and \<open>del\<close> commands of the Redis client, which is not among the sources.
\<close>

definition keysMatching :: "string \<Rightarrow> (string \<times> counter) list \<Rightarrow> string list" where
  "keysMatching pattern es = filter (glob pattern) (map fst es)"

definition del :: "string list \<Rightarrow> (string \<times> counter) list \<Rightarrow> (string \<times> counter) list" where
  "del ks es = filter (\<lambda>kv. fst kv \<notin> set ks) es"

section \<open>The limiter middleware\<close>

record response =
  status :: nat
  body :: jsval
  limit_header :: "nat option"
  remaining_header :: "nat option"
  reset_header :: "nat option"

text \<open>
  What a middleware does with a request: it calls \<open>next()\<close>, it sends a response, or it
  hands an error to \<open>next(err)\<close>.
\<close>

datatype outcome = Next | Respond response | Raise js_error

text \<open>
  The identity key of a request under a policy: the policy's \<open>keyGenerator\<close>, and the
  client's address for a policy that sets none (the limiters without one are the ones the
  sources comment as limiting "each IP").
\<close>

definition resolveKey :: "policy \<Rightarrow> request \<Rightarrow> js_error + jsval" where
  "resolveKey p req = (case keyGenerator p of None \<Rightarrow> Inr (ip req) | Some g \<Rightarrow> g req)"

text \<open>
  The store's key prefix: the \<open>prefix\<close> option, and \<open>rl:\<close> for a store that sets none (the
  reset script lists it as the "rate-limit-redis default prefix").
\<close>

definition storePrefix :: "policy \<Rightarrow> string" where
  "storePrefix p = (case prefix_opt p of None \<Rightarrow> ''rl:'' | Some s \<Rightarrow> s)"

definition storeKey :: "policy \<Rightarrow> request \<Rightarrow> js_error + string" where
  "storeKey p req =
     (case resolveKey p req of Inl e \<Rightarrow> Inl e | Inr k \<Rightarrow> Inr (storePrefix p @ jsToString k))"

record decision =
  allowed :: bool
  remaining :: nat
  resetAt :: nat

text \<open>
  Modelled from the spec: \<open>evaluate\<close> of a policy (section 4.2), the decision inside the
  middleware of the express-rate-limit package, which is not among the sources:
  increment the counter, allowed iff the returned count is at most the quota,
  \<open>remaining = max(0, maxRequests - count)\<close>, \<open>resetAt\<close> from the counter.
\<close>

definition evaluate :: "policy \<Rightarrow> string \<Rightarrow> nat \<Rightarrow> redis \<Rightarrow> js_error + (decision \<times> redis)" where
  "evaluate p key now r =
     (case incrementAndGetCount key now (windowMs p) r of
        Inl e \<Rightarrow> Inl e
      | Inr (c, r') \<Rightarrow>
          Inr (\<lparr> allowed = hits c \<le> max_opt p, remaining = max_opt p - hits c,
                 resetAt = resetTime c \<rparr>, r'))"

text \<open>
  The middleware \<open>rateLimit(options)\<close> returns. The express-rate-limit package is not
  among the sources; the steps are those of section 4.3 of the spec (resolve the key,
  evaluate the policy, on denial respond and do not forward, else forward). An option
  the options objects of the sources leave unset has the package's default: the denial
  status is 429, the body is the \<open>message\<close> option as handed to \<open>res.send\<close> (a string in
  every limiter of the sources), and an error thrown by the key generator or by the
  store call goes to \<open>next(err)\<close>: no limiter of the sources sets \<open>passOnStoreError\<close>,
  \<open>skip\<close> or a \<open>handler\<close>, and the \<open>sendCommand\<close> they pass catches nothing.
\<close>

definition rateLimit :: "policy \<Rightarrow> request \<Rightarrow> nat \<Rightarrow> redis \<Rightarrow> outcome \<times> redis" where
  "rateLimit p req now r =
     (case storeKey p req of
        Inl e \<Rightarrow> (Raise e, r)
      | Inr key \<Rightarrow>
          (case evaluate p key now r of
             Inl e \<Rightarrow> (Raise e, r)
           | Inr (d, r') \<Rightarrow>
               if allowed d then (Next, r')
               else (Respond \<lparr> status = 429, body = JStr (message p),
                       limit_header = (if standardHeaders p then Some (max_opt p) else None),
                       remaining_header = (if standardHeaders p then Some (remaining d) else None),
                       reset_header = (if standardHeaders p then Some (resetAt d) else None) \<rparr>, r')))"

text \<open>
  The error handler of \<open>server.js\<close>: status \<open>err.status || 500\<close>, body
  \<open>{success: false, message: err.message || 'Internal Server Error', error: ...}\<close>, the
  error itself only when \<open>NODE_ENV\<close> is \<open>development\<close>.
\<close>

definition errorHandler :: "string option \<Rightarrow> js_error \<Rightarrow> response" where
  "errorHandler node_env err =
     \<lparr> status = (case err_status err of None \<Rightarrow> 500 | Some n \<Rightarrow> if n = 0 then 500 else n),
       body = JObj [(''success'', JBool False),
                    (''message'', JStr (if err_message err = [] then ''Internal Server Error''
                                        else err_message err)),
                    (''error'', if node_env = Some ''development'' then err_json err else JObj [])],
       limit_header = None, remaining_header = None, reset_header = None \<rparr>"

text \<open>A field of a JSON body; \<open>undefined\<close> when the body is no object or lacks it.\<close>

definition field :: "jsval \<Rightarrow> string \<Rightarrow> jsval" where
  "field v name =
     (case v of
        JObj fs \<Rightarrow> (case map_of fs name of None \<Rightarrow> JUndefined | Some x \<Rightarrow> x)
      | _ \<Rightarrow> JUndefined)"

text \<open>
  Modelled from the spec: the limiters attached to one route run in sequence (section
  4.2, composability); the route files are not among the sources. A limiter that does
  not call \<open>next()\<close> ends the chain.
\<close>

fun runChain :: "policy list \<Rightarrow> request \<Rightarrow> nat \<Rightarrow> redis \<Rightarrow> outcome \<times> redis" where
  "runChain [] req now r = (Next, r)"
| "runChain (p # ps) req now r =
     (case rateLimit p req now r of
        (Next, r') \<Rightarrow> runChain ps req now r'
      | (out, r') \<Rightarrow> (out, r'))"

text \<open>
  What the client gets from the admission layer: nothing when the request is forwarded
  to the route's handler, the limiter's response, or the error handler's.
\<close>

definition admit :: "string option \<Rightarrow> policy list \<Rightarrow> request \<Rightarrow> nat \<Rightarrow> redis \<Rightarrow> response option \<times> redis" where
  "admit node_env ps req now r =
     (case runChain ps req now r of
        (Next, r') \<Rightarrow> (None, r')
      | (Respond resp, r') \<Rightarrow> (Some resp, r')
      | (Raise e, r') \<Rightarrow> (Some (errorHandler node_env e), r'))"

section \<open>Sequences of requests\<close>

text \<open>Requests of one client through one limiter, one after the other, at the given instants.\<close>

fun requests :: "policy \<Rightarrow> request \<Rightarrow> nat list \<Rightarrow> redis \<Rightarrow> outcome list \<times> redis" where
  "requests p req [] r = ([], r)"
| "requests p req (t # ts) r =
     (case rateLimit p req t r of
        (out, r') \<Rightarrow> (case requests p req ts r' of (outs, r'') \<Rightarrow> (out # outs, r'')))"

text \<open>The same through the chain of limiters of one route.\<close>

fun chainRequests :: "policy list \<Rightarrow> request \<Rightarrow> nat list \<Rightarrow> redis \<Rightarrow> outcome list \<times> redis" where
  "chainRequests ps req [] r = ([], r)"
| "chainRequests ps req (t # ts) r =
     (case runChain ps req t r of
        (out, r') \<Rightarrow> (case chainRequests ps req ts r' of (outs, r'') \<Rightarrow> (out # outs, r'')))"

text \<open>
  The decisions of the limiters of a route when each of them is evaluated in turn on
  the store its predecessors leave, whether or not a predecessor denied.
\<close>

fun decisions :: "policy list \<Rightarrow> request \<Rightarrow> nat \<Rightarrow> redis \<Rightarrow> outcome list" where
  "decisions [] req now r = []"
| "decisions (p # ps) req now r =
     (case rateLimit p req now r of (out, r') \<Rightarrow> out # decisions ps req now r')"

text \<open>The count a key stands at: 0 for a key without a counter.\<close>

definition countAt :: "redis \<Rightarrow> string \<Rightarrow> nat" where
  "countAt r key = (case map_of (entries r) key of None \<Rightarrow> 0 | Some c \<Rightarrow> hits c)"

section \<open>The reset script\<close>

text \<open>
  The Redis client of \<open>clear-rate-limits.js\<close>, as far as the script can observe it:
  each of its calls succeeds or throws. \<open>keys_fault pattern\<close> is the error the enumeration
  of a pattern throws, \<open>del_fault ks\<close> the error the deletion of the keys \<open>ks\<close> throws.
\<close>

record client =
  connect_fault :: "js_error option"
  keys_fault :: "string \<Rightarrow> js_error option"
  del_fault :: "string list \<Rightarrow> js_error option"
  quit_fault :: "js_error option"

text \<open>The lines the script prints, in the order of its \<open>console.log\<close> and \<open>console.error\<close> calls.\<close>

datatype log_line =
    Connected
  | Deleting nat string
  | NoKeysFound string
  | AllCleared
  | TestHint
  | ErrorClearing js_error

definition patterns :: "string list" where
  "patterns = [''rl:*'', ''auth_limit:*'', ''general_limit:*'', ''order_limit:*'',
               ''tenant_limit:*'', ''user_limit:*'']"

text \<open>
  The loop over the patterns. It stops at the first call that throws, with the error,
  the store and the lines printed so far.
\<close>

fun clearPatterns :: "client \<Rightarrow> string list \<Rightarrow> (string \<times> counter) list \<Rightarrow> log_line list
    \<Rightarrow> (js_error \<times> (string \<times> counter) list \<times> log_line list) + ((string \<times> counter) list \<times> log_line list)" where
  "clearPatterns cl [] es lg = Inr (es, lg)"
| "clearPatterns cl (pattern # rest) es lg =
     (case keys_fault cl pattern of
        Some e \<Rightarrow> Inl (e, es, lg)
      | None \<Rightarrow>
          (let ks = keysMatching pattern es in
           if length ks > 0 then
             (let lg' = lg @ [Deleting (length ks) pattern] in
              case del_fault cl ks of
                Some e \<Rightarrow> Inl (e, es, lg')
              | None \<Rightarrow> clearPatterns cl rest (del ks es) lg')
           else clearPatterns cl rest es (lg @ [NoKeysFound pattern])))"

record run =
  exit_code :: nat
  store_after :: "(string \<times> counter) list"
  logged :: "log_line list"

text \<open>
  \<open>clearRateLimits\<close>: connect, clear the patterns, print the closing lines, quit and exit
  with 0; any call that throws lands in the \<open>catch\<close>, which prints the error and exits
  with 1.
\<close>

definition clearRateLimits :: "client \<Rightarrow> (string \<times> counter) list \<Rightarrow> run" where
  "clearRateLimits cl es =
     (case connect_fault cl of
        Some e \<Rightarrow> \<lparr> exit_code = 1, store_after = es, logged = [ErrorClearing e] \<rparr>
      | None \<Rightarrow>
          (case clearPatterns cl patterns es [Connected] of
             Inl (e, es', lg) \<Rightarrow>
               \<lparr> exit_code = 1, store_after = es', logged = lg @ [ErrorClearing e] \<rparr>
           | Inr (es', lg) \<Rightarrow>
               (case quit_fault cl of
                  Some e \<Rightarrow>
                    \<lparr> exit_code = 1, store_after = es',
                      logged = lg @ [AllCleared, TestHint, ErrorClearing e] \<rparr>
                | None \<Rightarrow>
                    \<lparr> exit_code = 0, store_after = es',
                      logged = lg @ [AllCleared, TestHint] \<rparr>)))"

text \<open>The line the loop prints for a pattern on a store.\<close>

definition patternLine :: "(string \<times> counter) list \<Rightarrow> string \<Rightarrow> log_line" where
  "patternLine es pattern =
     (if length (keysMatching pattern es) > 0
      then Deleting (length (keysMatching pattern es)) pattern
      else NoKeysFound pattern)"

text \<open>Two patterns that no key matches both.\<close>

definition disjointPatterns :: "string \<Rightarrow> string \<Rightarrow> bool" where
  "disjointPatterns p q = (\<forall>k. \<not> (glob p k \<and> glob q k))"

text \<open>Every enumeration and every deletion the loop makes on a store succeeds.\<close>

definition patternCallsSucceed :: "client \<Rightarrow> string list \<Rightarrow> (string \<times> counter) list \<Rightarrow> bool" where
  "patternCallsSucceed cl ps es =
     (\<forall>p \<in> set ps. keys_fault cl p = None \<and>
        (keysMatching p es \<noteq> [] \<longrightarrow> del_fault cl (keysMatching p es) = None))"

section \<open>Example inputs\<close>

text \<open>An unauthenticated request without tenant, and one of a logged-in user.\<close>

definition exampleRequest :: request where
  "exampleRequest = \<lparr> ip = JStr ''203.0.113.7'', tenantId = JUndefined, headers = [], user = None \<rparr>"

definition otherRequest :: request where
  "otherRequest = \<lparr> ip = JStr ''198.51.100.9'', tenantId = JUndefined, headers = [], user = None \<rparr>"

definition userRequest :: request where
  "userRequest =
     \<lparr> ip = JStr ''203.0.113.7'', tenantId = JUndefined, headers = [(''x-tenant-id'', ''acme'')],
       user = Some \<lparr> user_id = JObjectId ''64b7f0c2a1'' \<rparr> \<rparr>"

text \<open>A request whose user record has no \<open>_id\<close>.\<close>

definition anonymousUserRequest :: request where
  "anonymousUserRequest =
     \<lparr> ip = JStr ''203.0.113.7'', tenantId = JUndefined, headers = [],
       user = Some \<lparr> user_id = JUndefined \<rparr> \<rparr>"

text \<open>A request whose user record has an \<open>_id\<close> that shadows \<open>toString\<close> with \<open>null\<close>.\<close>

definition shadowedIdRequest :: request where
  "shadowedIdRequest =
     \<lparr> ip = JStr ''203.0.113.7'', tenantId = JUndefined, headers = [],
       user = Some \<lparr> user_id = JObj [(''toString'', JNull)] \<rparr> \<rparr>"

definition emptyStore :: redis where
  "emptyStore = \<lparr> entries = [], down = None \<rparr>"

text \<open>The store after five requests of the example client in the window that ends at 900000.\<close>

definition authExhausted :: redis where
  "authExhausted =
     \<lparr> entries = [(''rl:203.0.113.7'', \<lparr> hits = 5, resetTime = 900000 \<rparr>)], down = None \<rparr>"

definition storeUnreachable :: js_error where
  "storeUnreachable =
     \<lparr> err_name = ''Error'', err_status = None,
       err_message = ''connect ECONNREFUSED 127.0.0.1:6379'',
       err_json = JObj [(''code'', JStr ''ECONNREFUSED'')] \<rparr>"

definition downStore :: redis where
  "downStore = \<lparr> entries = [], down = Some storeUnreachable \<rparr>"

definition healthyClient :: client where
  "healthyClient =
     \<lparr> connect_fault = None, keys_fault = (\<lambda>pattern. None), del_fault = (\<lambda>ks. None),
       quit_fault = None \<rparr>"

text \<open>A client whose deletions fail.\<close>

definition failingClient :: client where
  "failingClient =
     \<lparr> connect_fault = None, keys_fault = (\<lambda>pattern. None),
       del_fault = (\<lambda>ks. Some storeUnreachable), quit_fault = None \<rparr>"

text \<open>
  A store with a counter under each prefix the reset script lists, and a session key
  that is none of its business.
\<close>

definition exampleEntries :: "(string \<times> counter) list" where
  "exampleEntries =
     [(''rl:203.0.113.7'', \<lparr> hits = 3, resetTime = 900000 \<rparr>),
      (''session:abc'', \<lparr> hits = 0, resetTime = 0 \<rparr>),
      (''tenant_limit:acme'', \<lparr> hits = 7, resetTime = 900000 \<rparr>),
      (''user_limit:64b7f0c2a1'', \<lparr> hits = 2, resetTime = 900000 \<rparr>),
      (''order_limit:64b7f0c2a1'', \<lparr> hits = 1, resetTime = 3600000 \<rparr>),
      (''auth_limit:203.0.113.7'', \<lparr> hits = 1, resetTime = 900000 \<rparr>),
      (''general_limit:203.0.113.7'', \<lparr> hits = 1, resetTime = 900000 \<rparr>)]"

section \<open>Key resolution\<close>

lemmas policy_defs =
  generalLimiter_def authLimiter_def tenantLimiter_def userLimiter_def orderLimiter_def

lemmas key_defs =
  storeKey_def resolveKey_def storePrefix_def tenantKeyGenerator_def userKeyGenerator_def
  orderKeyGenerator_def js_or_def header_def

lemmas example_defs =
  exampleRequest_def otherRequest_def userRequest_def anonymousUserRequest_def emptyStore_def
  authExhausted_def downStore_def

lemma user_scoped_key:
  assumes "p = userLimiter m w \<or> p = orderLimiter"
  shows "resolveKey p req =
      (case user req of
         Some u \<Rightarrow> (case toStringMethod (user_id u) of Inl e \<Rightarrow> Inl e | Inr s \<Rightarrow> Inr (JStr s))
       | None \<Rightarrow> Inr (ip req))"
  using assms by (auto simp: resolveKey_def userLimiter_def orderLimiter_def
      userKeyGenerator_def orderKeyGenerator_def)

text \<open>
  The general and the auth limiter set neither a prefix nor a key generator, so they
  resolve every request to the same store key.
\<close>

lemma general_auth_same_key: "storeKey generalLimiter req = storeKey authLimiter req"
  by (simp add: storeKey_def resolveKey_def storePrefix_def generalLimiter_def authLimiter_def)

text \<open>
  Two limiters with different prefixes never resolve to the same store key, whatever
  the requests.
\<close>

lemma distinct_prefix_distinct_key:
  assumes "storePrefix (policyOf l1) \<noteq> storePrefix (policyOf l2)"
    and "storeKey (policyOf l1) req1 = Inr key1" and "storeKey (policyOf l2) req2 = Inr key2"
  shows "key1 \<noteq> key2"
proof -
  obtain k1 k2 where "key1 = storePrefix (policyOf l1) @ k1" "key2 = storePrefix (policyOf l2) @ k2"
    using assms(2,3) by (auto simp: storeKey_def split: sum.splits)
  then show ?thesis
    using assms(1) by (cases l1; cases l2) (auto simp: storePrefix_def policy_defs)
qed

text \<open>The prefixes of the five limiters: only the general and the auth limiter coincide.\<close>

lemma limiter_prefixes:
  "storePrefix generalLimiter = ''rl:''"
  "storePrefix authLimiter = ''rl:''"
  "storePrefix (tenantLimiter m w) = ''tenant_limit:''"
  "storePrefix (userLimiter m w) = ''user_limit:''"
  "storePrefix orderLimiter = ''order_limit:''"
  by (simp_all add: storePrefix_def policy_defs)

section \<open>One limiter\<close>

lemma incr_up:
  "down r = None \<Longrightarrow>
   \<exists>c. incrementAndGetCount key now window r = Inr (c, r \<lparr> entries := AList.update key c (entries r) \<rparr>)
       \<and> hits c = countAt r key + 1"
  by (simp add: incrementAndGetCount_def countAt_def Let_def split: option.splits)

lemma incr_down: "down r = Some e \<Longrightarrow> incrementAndGetCount key now window r = Inl e"
  by (simp add: incrementAndGetCount_def)

lemma rateLimit_down:
  "down r = Some e \<Longrightarrow>
   rateLimit p req now r = (Raise (case storeKey p req of Inl e' \<Rightarrow> e' | Inr k \<Rightarrow> e), r)"
  by (simp add: rateLimit_def evaluate_def incr_down split: sum.splits)

lemma rateLimit_up:
  assumes "down r = None" and "storeKey p req = Inr key"
  shows "(fst (rateLimit p req now r) = Next \<and> countAt r key + 1 \<le> max_opt p) \<or>
         (\<exists>resp. fst (rateLimit p req now r) = Respond resp \<and> status resp = 429 \<and>
            max_opt p < countAt r key + 1)"
    and "countAt (snd (rateLimit p req now r)) key = countAt r key + 1"
    and "down (snd (rateLimit p req now r)) = None"
    and "key' \<noteq> key \<Longrightarrow> map_of (entries (snd (rateLimit p req now r))) key' = map_of (entries r) key'"
proof -
  from incr_up [OF assms(1), of key now "windowMs p"] obtain c where
    c: "incrementAndGetCount key now (windowMs p) r = Inr (c, r \<lparr> entries := AList.update key c (entries r) \<rparr>)"
    and h: "hits c = countAt r key + 1" by blast
  show "(fst (rateLimit p req now r) = Next \<and> countAt r key + 1 \<le> max_opt p) \<or>
         (\<exists>resp. fst (rateLimit p req now r) = Respond resp \<and> status resp = 429 \<and>
            max_opt p < countAt r key + 1)"
    using assms(2) c h by (simp add: rateLimit_def evaluate_def)
  show "countAt (snd (rateLimit p req now r)) key = countAt r key + 1"
    using assms(2) c h by (simp add: rateLimit_def evaluate_def countAt_def update_conv')
  show "down (snd (rateLimit p req now r)) = None"
    using assms c h by (simp add: rateLimit_def evaluate_def)
  show "key' \<noteq> key \<Longrightarrow> map_of (entries (snd (rateLimit p req now r))) key' = map_of (entries r) key'"
    using assms(2) c h by (simp add: rateLimit_def evaluate_def update_conv')
qed

text \<open>A limiter touches no counter but the one of the key it resolves.\<close>

lemma rateLimit_frame:
  assumes "storeKey p req = Inr key" and "key' \<noteq> key"
  shows "map_of (entries (snd (rateLimit p req now r))) key' = map_of (entries r) key'"
proof (cases "down r")
  case None
  from rateLimit_up(4) [OF None assms] show ?thesis .
next
  case (Some e)
  then show ?thesis using rateLimit_down [OF Some, of p req now] by simp
qed

lemma rateLimit_Respond:
  assumes "rateLimit p req now r = (Respond resp, r')"
  shows "\<exists>key c. storeKey p req = Inr key \<and> map_of (entries r') key = Some c \<and> max_opt p < hits c \<and>
           status resp = 429 \<and> body resp = JStr (message p) \<and>
           reset_header resp = (if standardHeaders p then Some (resetTime c) else None)"
  using assms
  by (auto simp: rateLimit_def evaluate_def incrementAndGetCount_def Let_def update_conv'
      split: sum.splits option.splits if_splits)

lemma requests_length: "length (fst (requests p req ts r)) = length ts"
proof (induction ts arbitrary: r)
  case Nil
  then show ?case by simp
next
  case (Cons t ts)
  obtain out r' where step: "rateLimit p req t r = (out, r')" by (cases "rateLimit p req t r")
  obtain outs r'' where rest: "requests p req ts r' = (outs, r'')" by (cases "requests p req ts r'")
  have "length outs = length ts" using Cons.IH [of r'] rest by simp
  then show ?case using step rest by simp
qed

text \<open>
  On a reachable store, request number \<open>i + 1\<close> of a sequence is decided by the count it
  raises the counter to.
\<close>

lemma requests_nth:
  assumes "down r = None" and "storeKey p req = Inr key" and "i < length ts"
  shows "(fst (requests p req ts r) ! i = Next \<and> countAt r key + i + 1 \<le> max_opt p) \<or>
         (\<exists>resp. fst (requests p req ts r) ! i = Respond resp \<and> status resp = 429 \<and>
            max_opt p < countAt r key + i + 1)"
  using assms
proof (induction ts arbitrary: r i)
  case Nil
  then show ?case by simp
next
  case (Cons t ts)
  obtain out r' where step: "rateLimit p req t r = (out, r')" by (cases "rateLimit p req t r")
  obtain outs r'' where rest: "requests p req ts r' = (outs, r'')" by (cases "requests p req ts r'")
  have out: "(out = Next \<and> countAt r key + 1 \<le> max_opt p) \<or>
         (\<exists>resp. out = Respond resp \<and> status resp = 429 \<and> max_opt p < countAt r key + 1)"
    using rateLimit_up(1) [OF Cons.prems(1,2), of t] step by simp
  have cnt: "countAt r' key = countAt r key + 1"
    using rateLimit_up(2) [OF Cons.prems(1,2), of t] step by simp
  have up: "down r' = None"
    using rateLimit_up(3) [OF Cons.prems(1,2), of t] step by simp
  show ?case
  proof (cases i)
    case 0
    then show ?thesis using step rest out by simp
  next
    case (Suc j)
    then have "j < length ts" using Cons.prems(3) by simp
    from Cons.IH [OF up Cons.prems(2) this]
    have "(outs ! j = Next \<and> countAt r' key + j + 1 \<le> max_opt p) \<or>
         (\<exists>resp. outs ! j = Respond resp \<and> status resp = 429 \<and> max_opt p < countAt r' key + j + 1)"
      using rest by simp
    then show ?thesis using step rest Suc cnt by simp
  qed
qed

text \<open>
  C1. For every policy and every sequence of requests of one identity within one window,
  starting from a store that holds no counter for the identity: request number \<open>i + 1\<close>
  is allowed exactly when \<open>i + 1\<close> is at most the quota, and is otherwise answered with
  the throttling status; so request number \<open>max\<close> is allowed and request number
  \<open>max + 1\<close> is denied. The decision of \<open>evaluate\<close> is allowed exactly when the count the
  increment returns is at most the quota.
\<close>

theorem C1_quota_boundary:
  assumes "down r = None" and "storeKey p req = Inr key" and "map_of (entries r) key = None"
  shows "length (fst (requests p req ts r)) = length ts \<and>
         (\<forall>i < length ts. (fst (requests p req ts r) ! i = Next) = (i + 1 \<le> max_opt p)) \<and>
         (\<forall>i < length ts. max_opt p < i + 1 \<longrightarrow>
            (\<exists>resp. fst (requests p req ts r) ! i = Respond resp \<and> status resp = 429)) \<and>
         (\<forall>now s c s'. incrementAndGetCount key now (windowMs p) s = Inr (c, s') \<longrightarrow>
            (\<exists>d. evaluate p key now s = Inr (d, s') \<and> allowed d = (hits c \<le> max_opt p)))"
proof -
  have zero: "countAt r key = 0" using assms(3) by (simp add: countAt_def)
  have nth: "(fst (requests p req ts r) ! i = Next \<and> i + 1 \<le> max_opt p) \<or>
         (\<exists>resp. fst (requests p req ts r) ! i = Respond resp \<and> status resp = 429 \<and>
            max_opt p < i + 1)" if "i < length ts" for i
    using requests_nth [OF assms(1,2) that] zero by simp
  have a: "\<forall>i < length ts. (fst (requests p req ts r) ! i = Next) = (i + 1 \<le> max_opt p)"
    using nth by fastforce
  have b: "\<forall>i < length ts. max_opt p < i + 1 \<longrightarrow>
            (\<exists>resp. fst (requests p req ts r) ! i = Respond resp \<and> status resp = 429)"
    using nth by fastforce
  have c: "\<forall>now s c s'. incrementAndGetCount key now (windowMs p) s = Inr (c, s') \<longrightarrow>
            (\<exists>d. evaluate p key now s = Inr (d, s') \<and> allowed d = (hits c \<le> max_opt p))"
    by (simp add: evaluate_def)
  show ?thesis using requests_length a b c by blast
qed

theorem C1_quota_boundary_witness:
  "fst (requests authLimiter exampleRequest [0, 1, 2, 3, 4, 5] emptyStore) ! 4 = Next \<and>
   fst (requests authLimiter exampleRequest [0, 1, 2, 3, 4, 5] emptyStore) ! 5 \<noteq> Next"
proof -
  have a: "down emptyStore = None" by (simp add: emptyStore_def)
  have b: "storeKey authLimiter exampleRequest = Inr ''rl:203.0.113.7''"
    by (simp add: key_defs policy_defs example_defs)
  have c: "map_of (entries emptyStore) ''rl:203.0.113.7'' = None" by (simp add: emptyStore_def)
  have m: "max_opt authLimiter = 5" by (simp add: authLimiter_def)
  from C1_quota_boundary [OF a b c, of "[0, 1, 2, 3, 4, 5]"]
  have all: "\<forall>i < 6. (fst (requests authLimiter exampleRequest [0, 1, 2, 3, 4, 5] emptyStore) ! i = Next)
      = (i + 1 \<le> 5)"
    by (simp add: m)
  from all [rule_format, of 4] all [rule_format, of 5] show ?thesis by simp
qed

text \<open>
  C2. The claim asks for one distinct key prefix per policy. The tenant, user and order
  limiters set one; the general and the auth limiter set none, so both count under the
  store's default prefix, keyed by the client's address: they share one counter. Five
  requests through the general limiter alone use up the quota of the auth limiter, whose
  first request is then denied.
\<close>

theorem C2_general_auth_share_counter:
  "storeKey generalLimiter exampleRequest = Inr ''rl:203.0.113.7'' \<and>
   storeKey authLimiter exampleRequest = Inr ''rl:203.0.113.7'' \<and>
   fst (requests generalLimiter exampleRequest [0, 1, 2, 3, 4] emptyStore) = [Next, Next, Next, Next, Next] \<and>
   fst (rateLimit authLimiter exampleRequest 5
          (snd (requests generalLimiter exampleRequest [0, 1, 2, 3, 4] emptyStore))) =
     Respond \<lparr> status = 429, body = JStr (message authLimiter), limit_header = Some 5,
               remaining_header = Some 0, reset_header = Some 900000 \<rparr>"
  by (simp add: rateLimit_def evaluate_def incrementAndGetCount_def Let_def key_defs policy_defs
      example_defs)

text \<open>
  C9, as the claim states it, fails: the body of a denial is the policy's message
  itself, a string, not an object with the fields \<open>success\<close> and \<open>message\<close>.
\<close>

theorem C9_body_counterexample:
  "fst (rateLimit authLimiter exampleRequest 0 authExhausted) =
     Respond \<lparr> status = 429, body = JStr (message authLimiter), limit_header = Some 5,
               remaining_header = Some 0, reset_header = Some 900000 \<rparr> \<and>
   JStr (message authLimiter) \<noteq>
     JObj [(''success'', JBool False), (''message'', JStr (message authLimiter))]"
  by (simp add: rateLimit_def evaluate_def incrementAndGetCount_def Let_def key_defs policy_defs
      example_defs)

text \<open>
  C9, amended. For every request a policy denies, the response has the
  too-many-requests status 429 and its body is the denying policy's configured message,
  as a string.
\<close>

theorem C9_denial_response:
  assumes "fst (rateLimit p req now r) = Respond resp"
  shows "status resp = 429 \<and> body resp = JStr (message p)"
proof -
  from assms have "rateLimit p req now r = (Respond resp, snd (rateLimit p req now r))"
    by (simp add: prod_eq_iff)
  from rateLimit_Respond [OF this] show ?thesis by blast
qed

theorem C9_denial_response_witness:
  "fst (rateLimit orderLimiter userRequest 0
      \<lparr> entries = [(''order_limit:64b7f0c2a1'', \<lparr> hits = 10, resetTime = 3600000 \<rparr>)], down = None \<rparr>) =
     Respond \<lparr> status = 429, body = JStr ''Too many orders placed, please try again later.'',
               limit_header = Some 10, remaining_header = Some 0, reset_header = Some 3600000 \<rparr> \<and>
   status \<lparr> status = 429, body = JStr ''Too many orders placed, please try again later.'',
            limit_header = Some 10, remaining_header = Some 0, reset_header = Some 3600000 \<rparr> = 429 \<and>
   body \<lparr> status = 429, body = JStr ''Too many orders placed, please try again later.'',
          limit_header = Some 10, remaining_header = Some 0, reset_header = Some 3600000 \<rparr> =
     JStr (message orderLimiter)"
proof -
  have h: "fst (rateLimit orderLimiter userRequest 0
      \<lparr> entries = [(''order_limit:64b7f0c2a1'', \<lparr> hits = 10, resetTime = 3600000 \<rparr>)], down = None \<rparr>) =
     Respond \<lparr> status = 429, body = JStr ''Too many orders placed, please try again later.'',
               limit_header = Some 10, remaining_header = Some 0, reset_header = Some 3600000 \<rparr>"
    by (simp add: rateLimit_def evaluate_def incrementAndGetCount_def Let_def key_defs policy_defs
        example_defs)
  from C9_denial_response [OF h] h show ?thesis by simp
qed

text \<open>
  C3, as the claim states it, fails: with the store unreachable the general limiter does
  not let the request proceed. The store's error goes to the error handler, and the
  client gets its response with status 500.
\<close>

theorem C3_fail_open_counterexample:
  "fst (rateLimit generalLimiter exampleRequest 0 downStore) = Raise storeUnreachable \<and>
   fst (rateLimit generalLimiter exampleRequest 0 downStore) \<noteq> Next \<and>
   fst (admit None [generalLimiter] exampleRequest 0 downStore) =
     Some \<lparr> status = 500,
            body = JObj [(''success'', JBool False),
                         (''message'', JStr ''connect ECONNREFUSED 127.0.0.1:6379''),
                         (''error'', JObj [])],
            limit_header = None, remaining_header = None, reset_header = None \<rparr>"
  by (simp add: admit_def errorHandler_def rateLimit_def evaluate_def incrementAndGetCount_def
      key_defs policy_defs example_defs storeUnreachable_def)

text \<open>
  C3, amended. For every request during which the counter store is unreachable, no
  policy lets the request proceed: the limiter hands the error of the store call (or
  the error of its own key resolution) to the error handler and leaves the store as it
  was, and the client gets the error handler's response, an error status with
  \<open>success: false\<close>.
\<close>

theorem C3_store_failure_propagates:
  assumes "down r = Some e"
  shows "fst (rateLimit p req now r) \<noteq> Next \<and>
         (\<exists>e'. (e' = e \<or> resolveKey p req = Inl e') \<and>
            rateLimit p req now r = (Raise e', r) \<and>
            admit node_env [p] req now r = (Some (errorHandler node_env e'), r) \<and>
            status (errorHandler node_env e') =
              (case err_status e' of None \<Rightarrow> 500 | Some n \<Rightarrow> if n = 0 then 500 else n) \<and>
            field (body (errorHandler node_env e')) ''success'' = JBool False)"
proof -
  let ?e' = "case storeKey p req of Inl e' \<Rightarrow> e' | Inr k \<Rightarrow> e"
  have rl: "rateLimit p req now r = (Raise ?e', r)"
    using rateLimit_down [OF assms] .
  have src: "?e' = e \<or> resolveKey p req = Inl ?e'"
    by (auto simp: storeKey_def split: sum.splits)
  have adm: "admit node_env [p] req now r = (Some (errorHandler node_env ?e'), r)"
    using rl by (simp add: admit_def)
  have st: "status (errorHandler node_env ?e') =
              (case err_status ?e' of None \<Rightarrow> 500 | Some n \<Rightarrow> if n = 0 then 500 else n)"
    by (simp add: errorHandler_def)
  have succ: "field (body (errorHandler node_env ?e')) ''success'' = JBool False"
    by (simp add: errorHandler_def field_def)
  have "fst (rateLimit p req now r) \<noteq> Next" using rl by simp
  moreover have "\<exists>e'. (e' = e \<or> resolveKey p req = Inl e') \<and>
            rateLimit p req now r = (Raise e', r) \<and>
            admit node_env [p] req now r = (Some (errorHandler node_env e'), r) \<and>
            status (errorHandler node_env e') =
              (case err_status e' of None \<Rightarrow> 500 | Some n \<Rightarrow> if n = 0 then 500 else n) \<and>
            field (body (errorHandler node_env e')) ''success'' = JBool False"
    using rl src adm st succ by blast
  ultimately show ?thesis by blast
qed

theorem C3_store_failure_propagates_witness:
  "down downStore = Some storeUnreachable \<and>
   fst (rateLimit (tenantLimiter 1000 15) userRequest 0 downStore) \<noteq> Next"
proof -
  have d: "down downStore = Some storeUnreachable" by (simp add: downStore_def)
  from C3_store_failure_propagates [OF d, of "tenantLimiter 1000 15" userRequest 0] d
  show ?thesis by blast
qed

section \<open>The identity of a request\<close>

text \<open>
  C6. A user-scoped policy (the user limiter, the order limiter) resolves its key to the
  identifier of the request's user, as text, when the request carries a user, and to the
  client's address otherwise. Two requests without a user from different addresses
  resolve to different store keys, and evaluating one never changes the counter of the
  other.
\<close>

theorem C6_user_key_resolution:
  assumes "p = userLimiter m w \<or> p = orderLimiter"
  shows "(\<forall>u s. user req = Some u \<longrightarrow> toStringMethod (user_id u) = Inr s \<longrightarrow>
            resolveKey p req = Inr (JStr s)) \<and>
         (user req = None \<longrightarrow> resolveKey p req = Inr (ip req)) \<and>
         (\<forall>req' a b. user req = None \<longrightarrow> user req' = None \<longrightarrow>
            ip req = JStr a \<longrightarrow> ip req' = JStr b \<longrightarrow> a \<noteq> b \<longrightarrow>
            (\<exists>key key'. storeKey p req = Inr key \<and> storeKey p req' = Inr key' \<and> key \<noteq> key' \<and>
               (\<forall>now r. map_of (entries (snd (rateLimit p req now r))) key' = map_of (entries r) key')))"
proof -
  note k = user_scoped_key [OF assms]
  have indep: "\<exists>key key'. storeKey p req = Inr key \<and> storeKey p req' = Inr key' \<and> key \<noteq> key' \<and>
               (\<forall>now r. map_of (entries (snd (rateLimit p req now r))) key' = map_of (entries r) key')"
    if "user req = None" "user req' = None" "ip req = JStr a" "ip req' = JStr b" "a \<noteq> b" for req' a b
  proof -
    have 1: "storeKey p req = Inr (storePrefix p @ a)"
      using that by (simp add: storeKey_def k)
    have 2: "storeKey p req' = Inr (storePrefix p @ b)"
      using that by (simp add: storeKey_def user_scoped_key [OF assms])
    have 3: "storePrefix p @ b \<noteq> storePrefix p @ a" using that by simp
    have "\<forall>now r. map_of (entries (snd (rateLimit p req now r))) (storePrefix p @ b)
        = map_of (entries r) (storePrefix p @ b)"
      using rateLimit_frame [OF 1 3] by blast
    then show ?thesis using 1 2 3 by metis
  qed
  show ?thesis using k indep by (auto split: option.splits)
qed

theorem C6_user_key_resolution_witness:
  "resolveKey orderLimiter userRequest = Inr (JStr ''64b7f0c2a1'') \<and>
   resolveKey orderLimiter exampleRequest = Inr (JStr ''203.0.113.7'') \<and>
   (\<exists>key key'. storeKey orderLimiter exampleRequest = Inr key \<and>
      storeKey orderLimiter otherRequest = Inr key' \<and> key \<noteq> key')"
proof -
  have p: "orderLimiter = userLimiter 0 0 \<or> orderLimiter = orderLimiter" by simp
  note c6 = C6_user_key_resolution [OF p]
  have u: "user userRequest = Some \<lparr> user_id = JObjectId ''64b7f0c2a1'' \<rparr>"
    by (simp add: userRequest_def)
  have t: "toStringMethod (user_id \<lparr> user_id = JObjectId ''64b7f0c2a1'' \<rparr>) = Inr ''64b7f0c2a1''"
    by simp
  have a: "resolveKey orderLimiter userRequest = Inr (JStr ''64b7f0c2a1'')"
    using c6 [of userRequest, THEN conjunct1, rule_format, OF u t] .
  have n: "user exampleRequest = None" "user otherRequest = None"
    "ip exampleRequest = JStr ''203.0.113.7''" "ip otherRequest = JStr ''198.51.100.9''"
    "''203.0.113.7'' \<noteq> ''198.51.100.9''"
    by (simp_all add: exampleRequest_def otherRequest_def)
  have b: "resolveKey orderLimiter exampleRequest = Inr (JStr ''203.0.113.7'')"
    using c6 [of exampleRequest, THEN conjunct2, THEN conjunct1, rule_format, OF n(1)] n(3) by simp
  have c: "\<exists>key key'. storeKey orderLimiter exampleRequest = Inr key \<and>
      storeKey orderLimiter otherRequest = Inr key' \<and> key \<noteq> key'"
    using c6 [of exampleRequest, THEN conjunct2, THEN conjunct2, rule_format, OF n] by blast
  show ?thesis using a b c by blast
qed

text \<open>
  C7. The tenant-scoped policy resolves its key to the tenant identifier attached to the
  request when there is one, else to the tenant header when there is one, else to the
  client's address; the resolution returns a key in every case and never an error. An
  identifier or header counts as present when it is truthy, as \<open>||\<close> reads it.
\<close>

theorem C7_tenant_key_precedence:
  "resolveKey (tenantLimiter maxRequests windowMinutes) req =
     Inr (if truthy (tenantId req) then tenantId req
          else if truthy (header req ''x-tenant-id'') then header req ''x-tenant-id''
          else ip req)"
  by (simp add: resolveKey_def tenantLimiter_def tenantKeyGenerator_def js_or_def)

theorem C7_tenant_key_precedence_witness:
  "resolveKey (tenantLimiter 1000 15) userRequest = Inr (JStr ''acme'') \<and>
   resolveKey (tenantLimiter 1000 15) exampleRequest = Inr (JStr ''203.0.113.7'') \<and>
   resolveKey (tenantLimiter 1000 15) (exampleRequest \<lparr> tenantId := JObjectId ''5f1d7e'' \<rparr>) =
     Inr (JObjectId ''5f1d7e'')"
  using C7_tenant_key_precedence [of 1000 15 userRequest]
    C7_tenant_key_precedence [of 1000 15 exampleRequest]
    C7_tenant_key_precedence [of 1000 15 "exampleRequest \<lparr> tenantId := JObjectId ''5f1d7e'' \<rparr>"]
  by (simp add: header_def userRequest_def exampleRequest_def)

text \<open>
  C8, as the claim states it, fails: on a request whose user record has no identifier the
  key resolution of the order limiter throws a TypeError.
\<close>

theorem C8_missing_id_counterexample:
  "resolveKey orderLimiter anonymousUserRequest = Inl (typeError ''undefined'' ''toString'') \<and>
   resolveKey (userLimiter 50 15) anonymousUserRequest = Inl (typeError ''undefined'' ''toString'')"
  by (simp add: resolveKey_def orderLimiter_def orderKeyGenerator_def userLimiter_def
      userKeyGenerator_def anonymousUserRequest_def)

text \<open>When the call \<open>req.user._id.toString()\<close> returns.\<close>

lemma toStringMethod_succeeds:
  "(\<exists>s. toStringMethod v = Inr s) =
     (v \<noteq> JUndefined \<and> v \<noteq> JNull \<and> (\<forall>fs. v = JObj fs \<longrightarrow> map_of fs ''toString'' = None))"
  by (cases v) (auto split: option.splits)

text \<open>A user-scoped policy throws exactly on a user whose \<open>_id.toString()\<close> throws.\<close>

lemma user_scoped_key_throws:
  assumes "p = userLimiter m w \<or> p = orderLimiter"
  shows "(\<exists>e. resolveKey p req = Inl e) =
         (\<exists>u e. user req = Some u \<and> toStringMethod (user_id u) = Inl e)"
  unfolding user_scoped_key [OF assms] by (auto split: option.splits sum.splits)

lemma shadowed_id_throws:
  "resolveKey orderLimiter shadowedIdRequest = Inl (notAFunction ''req.user._id.toString'')"
  by (simp add: resolveKey_def orderLimiter_def orderKeyGenerator_def shadowedIdRequest_def)

text \<open>
  C8, amended. The key resolution of every policy is a function of the request, and for
  every request whose user record, when there is one, carries an identifier on which
  the call of \<open>toString()\<close> returns (a value other than \<open>undefined\<close> and \<open>null\<close>, and
  no object that shadows \<open>toString\<close>), it returns a key and does not throw; the
  address, tenant identifier and headers may be absent or empty. When the request
  carries an address, the key is neither \<open>undefined\<close> nor \<open>null\<close>.
\<close>

theorem C8_key_resolution_total:
  assumes "case user req of None \<Rightarrow> True | Some u \<Rightarrow> (\<exists>s. toStringMethod (user_id u) = Inr s)"
  shows "\<exists>k. resolveKey (policyOf l) req = Inr k \<and>
           (\<forall>a. ip req = JStr a \<longrightarrow> k \<noteq> JUndefined \<and> k \<noteq> JNull)"
proof (cases l)
  case General
  then show ?thesis by (auto simp: resolveKey_def generalLimiter_def)
next
  case Auth
  then show ?thesis by (auto simp: resolveKey_def authLimiter_def)
next
  case (Tenant m w)
  have "k \<noteq> JUndefined \<and> k \<noteq> JNull" if "truthy k" for k
    using that by (cases k) simp_all
  then show ?thesis using Tenant
    by (auto simp: resolveKey_def tenantLimiter_def tenantKeyGenerator_def js_or_def)
next
  case (User m w)
  have p: "policyOf l = userLimiter m w \<or> policyOf l = orderLimiter" using User by simp
  show ?thesis using assms unfolding user_scoped_key [OF p]
    by (auto split: option.splits)
next
  case Order
  have p: "policyOf l = userLimiter 0 0 \<or> policyOf l = orderLimiter" using Order by simp
  show ?thesis using assms unfolding user_scoped_key [OF p]
    by (auto split: option.splits)
qed

theorem C8_key_resolution_total_witness:
  "(\<exists>k. resolveKey (policyOf (User 50 15)) userRequest = Inr k) \<and>
   (\<exists>k. resolveKey (policyOf Order)
      \<lparr> ip = JUndefined, tenantId = JStr [], headers = [], user = None \<rparr> = Inr k) \<and>
   (\<exists>k. resolveKey (policyOf (Tenant 1000 15)) exampleRequest = Inr k \<and> k \<noteq> JUndefined \<and> k \<noteq> JNull)"
proof -
  have a: "case user userRequest of None \<Rightarrow> True
      | Some u \<Rightarrow> (\<exists>s. toStringMethod (user_id u) = Inr s)"
    by (simp add: userRequest_def)
  have b: "case user \<lparr> ip = JUndefined, tenantId = JStr [], headers = [], user = None \<rparr> of
      None \<Rightarrow> True | Some u \<Rightarrow> (\<exists>s. toStringMethod (user_id u) = Inr s)"
    by simp
  have c: "case user exampleRequest of None \<Rightarrow> True
      | Some u \<Rightarrow> (\<exists>s. toStringMethod (user_id u) = Inr s)"
    by (simp add: exampleRequest_def)
  have i: "ip exampleRequest = JStr ''203.0.113.7''" by (simp add: exampleRequest_def)
  from C8_key_resolution_total [OF a, of "User 50 15"] C8_key_resolution_total [OF b, of Order]
    C8_key_resolution_total [OF c, of "Tenant 1000 15"] i
  show ?thesis by blast
qed

section \<open>The limiters of one route\<close>

lemma runChain_Next_iff:
  "(fst (runChain ps req now r) = Next) = list_all (\<lambda>out. out = Next) (decisions ps req now r)"
proof (induction ps arbitrary: r)
  case Nil
  then show ?case by simp
next
  case (Cons p ps)
  obtain out r' where step: "rateLimit p req now r = (out, r')" by (cases "rateLimit p req now r")
  show ?case
  proof (cases "out = Next")
    case True
    then show ?thesis using step Cons.IH [of r'] by simp
  next
    case False
    then show ?thesis using step by (cases out) simp_all
  qed
qed

text \<open>
  A chain that does not forward stops at its first limiter that does not: the limiters
  before it all forwarded, and the chain's outcome and store are the ones that limiter
  left.
\<close>

lemma runChain_first_denial:
  assumes "fst (runChain ps req now r) \<noteq> Next"
  shows "\<exists>as p bs r1. ps = as @ p # bs \<and> runChain as req now r = (Next, r1) \<and>
           runChain ps req now r = rateLimit p req now r1"
  using assms
proof (induction ps arbitrary: r)
  case Nil
  then show ?case by simp
next
  case (Cons p ps)
  obtain out r' where step: "rateLimit p req now r = (out, r')" by (cases "rateLimit p req now r")
  show ?case
  proof (cases "out = Next")
    case True
    then have eq: "runChain (p # ps) req now r = runChain ps req now r'" using step by simp
    with Cons.prems have "fst (runChain ps req now r') \<noteq> Next" by simp
    from Cons.IH [OF this] obtain as q bs r1 where
      s: "ps = as @ q # bs" and a: "runChain as req now r' = (Next, r1)"
      and d: "runChain ps req now r' = rateLimit q req now r1" by blast
    have "p # ps = (p # as) @ q # bs" using s by simp
    moreover have "runChain (p # as) req now r = (Next, r1)" using step True a by simp
    moreover have "runChain (p # ps) req now r = rateLimit q req now r1" using eq d by simp
    ultimately show ?thesis by blast
  next
    case False
    then have "runChain (p # ps) req now r = rateLimit p req now r"
      using step by (cases out) simp_all
    moreover have "p # ps = [] @ p # ps" by simp
    moreover have "runChain [] req now r = (Next, r)" by simp
    ultimately show ?thesis by blast
  qed
qed

text \<open>
  C10. The chain of the limiters of a route forwards the request exactly when every
  limiter, evaluated in turn, allows it. When it does not forward, the limiters split
  into those before the first that did not allow, which all forwarded, that limiter, and
  the rest, which are not evaluated: the outcome and the store are the ones the denying
  limiter left, and a denial carries its message and the reset time of its counter. With
  the general limiter (100 per window) and the auth limiter (5 per window) on one route,
  the sixth request of one client in a window is denied, with the auth limiter's message.
\<close>

theorem C10_chain_first_denial:
  "((fst (runChain ps req now r) = Next) = list_all (\<lambda>out. out = Next) (decisions ps req now r)) \<and>
   (fst (runChain ps req now r) \<noteq> Next \<longrightarrow>
      (\<exists>as p bs r1. ps = as @ p # bs \<and> runChain as req now r = (Next, r1) \<and>
         runChain ps req now r = rateLimit p req now r1 \<and>
         (\<forall>resp. fst (runChain ps req now r) = Respond resp \<longrightarrow>
            body resp = JStr (message p) \<and>
            (\<exists>key c. storeKey p req = Inr key \<and>
               map_of (entries (snd (runChain ps req now r))) key = Some c \<and>
               reset_header resp = (if standardHeaders p then Some (resetTime c) else None))))) \<and>
   fst (chainRequests [generalLimiter, authLimiter] exampleRequest [0, 1, 2, 3, 4, 5] emptyStore) ! 5 =
     Respond \<lparr> status = 429, body = JStr (message authLimiter), limit_header = Some 5,
               remaining_header = Some 0, reset_header = Some 900000 \<rparr>"
proof -
  have a: "(fst (runChain ps req now r) = Next) = list_all (\<lambda>out. out = Next) (decisions ps req now r)"
    by (rule runChain_Next_iff)
  have b: "\<exists>as p bs r1. ps = as @ p # bs \<and> runChain as req now r = (Next, r1) \<and>
         runChain ps req now r = rateLimit p req now r1 \<and>
         (\<forall>resp. fst (runChain ps req now r) = Respond resp \<longrightarrow>
            body resp = JStr (message p) \<and>
            (\<exists>key c. storeKey p req = Inr key \<and>
               map_of (entries (snd (runChain ps req now r))) key = Some c \<and>
               reset_header resp = (if standardHeaders p then Some (resetTime c) else None)))"
    if "fst (runChain ps req now r) \<noteq> Next"
  proof -
    from runChain_first_denial [OF that] obtain as p bs r1 where
      s: "ps = as @ p # bs" and n: "runChain as req now r = (Next, r1)"
      and d: "runChain ps req now r = rateLimit p req now r1" by blast
    have "body resp = JStr (message p) \<and>
            (\<exists>key c. storeKey p req = Inr key \<and>
               map_of (entries (snd (runChain ps req now r))) key = Some c \<and>
               reset_header resp = (if standardHeaders p then Some (resetTime c) else None))"
      if "fst (runChain ps req now r) = Respond resp" for resp
    proof -
      from that d have "rateLimit p req now r1 = (Respond resp, snd (runChain ps req now r))"
        by (simp add: prod_eq_iff)
      from rateLimit_Respond [OF this] show ?thesis by blast
    qed
    then show ?thesis using s n d by blast
  qed
  have c: "fst (chainRequests [generalLimiter, authLimiter] exampleRequest [0, 1, 2, 3, 4, 5] emptyStore) ! 5 =
     Respond \<lparr> status = 429, body = JStr (message authLimiter), limit_header = Some 5,
               remaining_header = Some 0, reset_header = Some 900000 \<rparr>"
    by (simp add: rateLimit_def evaluate_def incrementAndGetCount_def Let_def key_defs policy_defs
        example_defs)
  show ?thesis using a b c by blast
qed

theorem C10_chain_first_denial_witness:
  "fst (runChain [generalLimiter, orderLimiter] userRequest 0 emptyStore) = Next \<and>
   list_all (\<lambda>out. out = Next) (decisions [generalLimiter, orderLimiter] userRequest 0 emptyStore) \<and>
   fst (runChain [authLimiter, orderLimiter] exampleRequest 0 authExhausted) \<noteq> Next \<and>
   \<not> list_all (\<lambda>out. out = Next) (decisions [authLimiter, orderLimiter] exampleRequest 0 authExhausted)"
proof -
  have f: "fst (runChain [generalLimiter, orderLimiter] userRequest 0 emptyStore) = Next"
    by (simp add: rateLimit_def evaluate_def incrementAndGetCount_def Let_def key_defs policy_defs
        example_defs)
  have g: "fst (runChain [authLimiter, orderLimiter] exampleRequest 0 authExhausted) \<noteq> Next"
    by (simp add: rateLimit_def evaluate_def incrementAndGetCount_def Let_def key_defs policy_defs
        example_defs)
  from C10_chain_first_denial [of "[generalLimiter, orderLimiter]" userRequest 0 emptyStore]
    C10_chain_first_denial [of "[authLimiter, orderLimiter]" exampleRequest 0 authExhausted] f g
  show ?thesis by blast
qed

section \<open>The reset script\<close>

lemma glob_star_any: "glob ''*'' s"
  by (induction s) simp_all

lemma glob_literal_head:
  "a \<noteq> CHR ''*'' \<Longrightarrow> a \<noteq> CHR ''?'' \<Longrightarrow> glob (a # p) k = (\<exists>k'. k = a # k' \<and> glob p k')"
  by (cases k) auto

text \<open>A pattern of literal characters followed by \<open>*\<close> matches the keys that start with them.\<close>

lemma glob_literal_prefix:
  "CHR ''*'' \<notin> set pre \<Longrightarrow> CHR ''?'' \<notin> set pre \<Longrightarrow> glob (pre @ ''*'') s = prefix pre s"
proof (induction pre arbitrary: s)
  case Nil
  then show ?case using glob_star_any by simp
next
  case (Cons a pre)
  from Cons.prems have lit: "a \<noteq> CHR ''*''" "a \<noteq> CHR ''?''"
    and rest: "CHR ''*'' \<notin> set pre" "CHR ''?'' \<notin> set pre" by auto
  have "glob ((a # pre) @ ''*'') s = (\<exists>k'. s = a # k' \<and> glob (pre @ ''*'') k')"
    using glob_literal_head [OF lit, of "pre @ ''*''" s] by simp
  also have "\<dots> = (\<exists>k'. s = a # k' \<and> prefix pre k')"
    using Cons.IH [OF rest] by simp
  also have "\<dots> = prefix (a # pre) s"
    by (cases s) auto
  finally show ?case .
qed

lemma disjoint_by_head:
  "a \<noteq> CHR ''*'' \<Longrightarrow> a \<noteq> CHR ''?'' \<Longrightarrow> b \<noteq> CHR ''*'' \<Longrightarrow> b \<noteq> CHR ''?'' \<Longrightarrow> a \<noteq> b
   \<Longrightarrow> disjointPatterns (a # p) (b # q)"
  unfolding disjointPatterns_def by (auto simp: glob_literal_head)

text \<open>No key matches two patterns of the script: their first characters differ.\<close>

lemma patterns_disjoint: "sorted_wrt disjointPatterns patterns"
  by (simp add: patterns_def disjoint_by_head)

lemma del_keysMatching: "del (keysMatching p es) es = filter (\<lambda>kv. \<not> glob p (fst kv)) es"
  unfolding del_def keysMatching_def by (rule filter_cong) auto

lemma keysMatching_none: "keysMatching p es = [] \<Longrightarrow> filter (\<lambda>kv. \<not> glob p (fst kv)) es = es"
  unfolding keysMatching_def by (induction es) (auto split: if_splits)

lemma keysMatching_filter_other:
  "disjointPatterns p q \<Longrightarrow> keysMatching q (filter (\<lambda>kv. \<not> glob p (fst kv)) es) = keysMatching q es"
  unfolding keysMatching_def disjointPatterns_def by (induction es) auto

lemma patternLine_filter_other:
  "disjointPatterns p q \<Longrightarrow> patternLine (filter (\<lambda>kv. \<not> glob p (fst kv)) es) q = patternLine es q"
  by (simp add: patternLine_def keysMatching_filter_other)

lemma patternCallsSucceed_filter_other:
  "\<forall>q \<in> set ps. disjointPatterns p q \<Longrightarrow>
   patternCallsSucceed cl ps (filter (\<lambda>kv. \<not> glob p (fst kv)) es) = patternCallsSucceed cl ps es"
  by (simp add: patternCallsSucceed_def keysMatching_filter_other)

text \<open>One turn of the loop, with the store it leaves written as a filter.\<close>

lemma clearPatterns_step:
  "clearPatterns cl (p # rest) es lg =
     (case keys_fault cl p of
        Some e \<Rightarrow> Inl (e, es, lg)
      | None \<Rightarrow>
          (if keysMatching p es \<noteq> [] \<and> del_fault cl (keysMatching p es) \<noteq> None
           then Inl (the (del_fault cl (keysMatching p es)), es, lg @ [patternLine es p])
           else clearPatterns cl rest (filter (\<lambda>kv. \<not> glob p (fst kv)) es) (lg @ [patternLine es p])))"
proof (cases "keys_fault cl p")
  case (Some e)
  then show ?thesis by simp
next
  case None
  show ?thesis
  proof (cases "keysMatching p es = []")
    case True
    then show ?thesis
      using None keysMatching_none [OF True] by (simp add: patternLine_def)
  next
    case False
    then show ?thesis
      using None by (cases "del_fault cl (keysMatching p es)")
        (simp_all add: Let_def patternLine_def del_keysMatching)
  qed
qed

text \<open>
  The loop over pairwise disjoint patterns ends without an error exactly when every
  call succeeds; it then leaves the keys that match no pattern and has printed one line
  per pattern, with the number of keys the pattern matched in the store it started on.
\<close>

lemma clearPatterns_result:
  assumes "sorted_wrt disjointPatterns ps"
  shows "(case clearPatterns cl ps es lg of
            Inr (es', lg') \<Rightarrow>
              patternCallsSucceed cl ps es \<and>
              es' = filter (\<lambda>kv. \<forall>p \<in> set ps. \<not> glob p (fst kv)) es \<and>
              lg' = lg @ map (patternLine es) ps
          | Inl (e, es', lg') \<Rightarrow> \<not> patternCallsSucceed cl ps es)"
  using assms
proof (induction ps arbitrary: es lg)
  case Nil
  then show ?case by (simp add: patternCallsSucceed_def)
next
  case (Cons p rest)
  let ?es1 = "filter (\<lambda>kv. \<not> glob p (fst kv)) es"
  have dis: "\<forall>q \<in> set rest. disjointPatterns p q" and srt: "sorted_wrt disjointPatterns rest"
    using Cons.prems by simp_all
  have lines: "map (patternLine ?es1) rest = map (patternLine es) rest"
    using dis by (simp add: patternLine_filter_other)
  have calls: "patternCallsSucceed cl rest ?es1 = patternCallsSucceed cl rest es"
    using dis by (rule patternCallsSucceed_filter_other)
  have surv: "filter (\<lambda>kv. \<forall>q \<in> set rest. \<not> glob q (fst kv)) ?es1
              = filter (\<lambda>kv. \<forall>q \<in> set (p # rest). \<not> glob q (fst kv)) es"
    by (induction es) auto
  have here: "patternCallsSucceed cl (p # rest) es =
      (keys_fault cl p = None \<and> (keysMatching p es \<noteq> [] \<longrightarrow> del_fault cl (keysMatching p es) = None)
       \<and> patternCallsSucceed cl rest es)"
    by (simp add: patternCallsSucceed_def)
  show ?case
  proof (cases "keys_fault cl p = None \<and> (keysMatching p es \<noteq> [] \<longrightarrow> del_fault cl (keysMatching p es) = None)")
    case False
    then show ?thesis
      by (subst clearPatterns_step) (auto simp: here split: option.splits)
  next
    case True
    then have eq: "clearPatterns cl (p # rest) es lg = clearPatterns cl rest ?es1 (lg @ [patternLine es p])"
      by (subst clearPatterns_step) auto
    show ?thesis
      using Cons.IH [OF srt, of ?es1 "lg @ [patternLine es p]"] True
      unfolding eq here calls lines surv
      by (auto split: sum.splits)
  qed
qed

text \<open>The two ways a run of the script ends.\<close>

lemma clearRateLimits_cases:
  "(connect_fault cl = None \<and> patternCallsSucceed cl patterns es \<and> quit_fault cl = None \<and>
      clearRateLimits cl es =
        \<lparr> exit_code = 0,
          store_after = filter (\<lambda>kv. \<forall>p \<in> set patterns. \<not> glob p (fst kv)) es,
          logged = Connected # map (patternLine es) patterns @ [AllCleared, TestHint] \<rparr>)
   \<or> (\<not> (connect_fault cl = None \<and> patternCallsSucceed cl patterns es \<and> quit_fault cl = None) \<and>
       exit_code (clearRateLimits cl es) = 1 \<and>
       (\<exists>e. last (logged (clearRateLimits cl es)) = ErrorClearing e))"
  using clearPatterns_result [OF patterns_disjoint, of cl es "[Connected]"]
  by (auto simp: clearRateLimits_def split: option.splits sum.splits)

lemma storePrefix_pattern: "storePrefix (policyOf l) @ ''*'' \<in> set patterns"
  by (cases l) (simp_all add: storePrefix_def patterns_def policy_defs)

lemma storePrefix_literal:
  "CHR ''*'' \<notin> set (storePrefix (policyOf l)) \<and> CHR ''?'' \<notin> set (storePrefix (policyOf l))"
  by (cases l) (simp_all add: storePrefix_def policy_defs)

lemma storeKey_matches:
  assumes "storeKey (policyOf l) req = Inr key"
  shows "glob (storePrefix (policyOf l) @ ''*'') key"
proof -
  from assms have "prefix (storePrefix (policyOf l)) key"
    by (auto simp: storeKey_def split: sum.splits)
  then show ?thesis
    using storePrefix_literal [of l] by (simp add: glob_literal_prefix)
qed

text \<open>
  C4. A run of the reset script that ends with status 0, on any store, leaves no key
  that matches a pattern of its list; so the enumeration of the keys under the prefix of
  each of the five policies is empty afterwards, the default prefix of the policies
  without a prefix of their own included, and no key a policy can resolve a request to
  is left in the store.
\<close>

theorem C4_reset_clears_all:
  assumes "exit_code (clearRateLimits cl es) = 0"
  shows "(\<forall>pattern \<in> set patterns. keysMatching pattern (store_after (clearRateLimits cl es)) = []) \<and>
         (\<forall>l. keysMatching (storePrefix (policyOf l) @ ''*'') (store_after (clearRateLimits cl es)) = []) \<and>
         (\<forall>l req key. storeKey (policyOf l) req = Inr key \<longrightarrow>
             key \<notin> set (map fst (store_after (clearRateLimits cl es))))"
proof -
  let ?after = "store_after (clearRateLimits cl es)"
  have after: "?after = filter (\<lambda>kv. \<forall>p \<in> set patterns. \<not> glob p (fst kv)) es"
    using clearRateLimits_cases [of cl es] assms by auto
  have none: "keysMatching pattern ?after = []" if "pattern \<in> set patterns" for pattern
    using that unfolding after keysMatching_def by (induction es) auto
  have keys: "key \<notin> set (map fst ?after)" if "storeKey (policyOf l) req = Inr key" for l req key
  proof
    assume "key \<in> set (map fst ?after)"
    then have "\<forall>p \<in> set patterns. \<not> glob p key" unfolding after by auto
    then show False using storePrefix_pattern [of l] storeKey_matches [OF that] by blast
  qed
  show ?thesis using none keys storePrefix_pattern by blast
qed

theorem C4_reset_clears_all_witness:
  "exit_code (clearRateLimits healthyClient exampleEntries) = 0 \<and>
   map fst (store_after (clearRateLimits healthyClient exampleEntries)) = [''session:abc''] \<and>
   keysMatching ''rl:*'' (store_after (clearRateLimits healthyClient exampleEntries)) = [] \<and>
   keysMatching (storePrefix (policyOf Auth) @ ''*'')
     (store_after (clearRateLimits healthyClient exampleEntries)) = []"
proof -
  have run: "clearRateLimits healthyClient exampleEntries =
      \<lparr> exit_code = 0, store_after = [(''session:abc'', \<lparr> hits = 0, resetTime = 0 \<rparr>)],
        logged = [Connected, Deleting 1 ''rl:*'', Deleting 1 ''auth_limit:*'',
                  Deleting 1 ''general_limit:*'', Deleting 1 ''order_limit:*'',
                  Deleting 1 ''tenant_limit:*'', Deleting 1 ''user_limit:*'',
                  AllCleared, TestHint] \<rparr>"
    by (simp add: clearRateLimits_def patterns_def keysMatching_def del_def healthyClient_def
        exampleEntries_def Let_def)
  then have e: "exit_code (clearRateLimits healthyClient exampleEntries) = 0" by simp
  note c4 = C4_reset_clears_all [OF e]
  have p: "''rl:*'' \<in> set patterns" by (simp add: patterns_def)
  from c4 [THEN conjunct1, rule_format, OF p] c4 [THEN conjunct2, THEN conjunct1, rule_format, of Auth]
    e run
  show ?thesis by simp
qed

text \<open>
  C5. The reset script exits with status 0 or 1. It exits with 0 exactly when the
  connection, every enumeration, every deletion and the closing of the connection
  succeed, and has then printed, for every pattern of its list in order, how many keys
  it found and deleted (or that it found none). In every other run it exits with 1, and
  the last line it prints is the error.
\<close>

theorem C5_reset_exit_status:
  "(exit_code (clearRateLimits cl es) = 0 \<or> exit_code (clearRateLimits cl es) = 1) \<and>
   ((exit_code (clearRateLimits cl es) = 0) =
      (connect_fault cl = None \<and> patternCallsSucceed cl patterns es \<and> quit_fault cl = None)) \<and>
   (exit_code (clearRateLimits cl es) = 0 \<longrightarrow>
      logged (clearRateLimits cl es) = Connected # map (patternLine es) patterns @ [AllCleared, TestHint]) \<and>
   (exit_code (clearRateLimits cl es) = 1 \<longrightarrow>
      (\<exists>e. last (logged (clearRateLimits cl es)) = ErrorClearing e))"
  using clearRateLimits_cases [of cl es] by auto

theorem C5_reset_exit_status_witness:
  "exit_code (clearRateLimits failingClient exampleEntries) = 1 \<and>
   (\<exists>e. last (logged (clearRateLimits failingClient exampleEntries)) = ErrorClearing e) \<and>
   \<not> patternCallsSucceed failingClient patterns exampleEntries \<and>
   exit_code (clearRateLimits healthyClient exampleEntries) = 0 \<and>
   logged (clearRateLimits healthyClient exampleEntries) =
     Connected # map (patternLine exampleEntries) patterns @ [AllCleared, TestHint]"
proof -
  have f: "exit_code (clearRateLimits failingClient exampleEntries) = 1"
    by (simp add: clearRateLimits_def patterns_def keysMatching_def del_def failingClient_def
        exampleEntries_def Let_def)
  have h: "exit_code (clearRateLimits healthyClient exampleEntries) = 0"
    by (simp add: clearRateLimits_def patterns_def keysMatching_def del_def healthyClient_def
        exampleEntries_def Let_def)
  have c: "connect_fault failingClient = None" "quit_fault failingClient = None"
    by (simp_all add: failingClient_def)
  from C5_reset_exit_status [of failingClient exampleEntries]
    C5_reset_exit_status [of healthyClient exampleEntries] f h c
  show ?thesis by simp
qed

end
